theory Spec2Isabelle
  imports Main "HOL-Library.Word"
begin

unbundle bit_operations_syntax

section \<open>uioctl: userspace I/O manipulation utility\<close>

text \<open>
  A shallow embedding of \<^verbatim>\<open>uioctl.c\<close>. The program parses its options, and then either
  monitors a UIO device file for interrupts (\<^verbatim>\<open>monitor\<close>), or maps the device and reads
  words from it or writes one word to it (the tail of \<^verbatim>\<open>main\<close>).

  The operating system and the C library are the environment of the program: what
  \<^verbatim>\<open>open\<close>, \<^verbatim>\<open>mmap\<close>, \<^verbatim>\<open>pwrite\<close>, \<^verbatim>\<open>pread\<close> and \<^verbatim>\<open>strtoul\<close> return is an input of the
  model. Every system call and every line printed is recorded, in the order of the
  source, in a list of events.
\<close>

subsection \<open>C data\<close>

type_synonym byte = "8 word"

text \<open>
  A C \<^verbatim>\<open>int\<close>: 32 bits, two's complement; \<open>sint\<close> reads its value. Arithmetic wraps
  around: that is the conversion of an \<^verbatim>\<open>unsigned long\<close> to \<^verbatim>\<open>int\<close>, and what the
  compiled program does on signed overflow, which C leaves undefined.
\<close>

type_synonym cint = "32 word"

text \<open>A \<^verbatim>\<open>char[4]\<close> buffer, element 0 first.\<close>

type_synonym buf4 = "byte \<times> byte \<times> byte \<times> byte"

datatype mode_type = MODE_READ | MODE_WRITE | MODE_LIST | MODE_MONITOR

datatype exit_status = EXIT_SUCCESS | EXIT_FAILURE

text \<open>The messages the program prints before it exits.\<close>

datatype message =
    Usage
  | Listing_not_yet_implemented
  | Perror
  | Region_not_yet_implemented
  | Width_not_yet_implemented
  | Unexpected_argument
  | Wrong_number_of_arguments
  | Couldnt_open string
  | Couldnt_mmap
  | Problem_clearing
  | Problem_reading

text \<open>
  What a run does, in order: the system calls with their arguments and results, the
  accesses to the mapped memory (byte offset from the mapping's start), and the lines
  printed on standard output.
\<close>

datatype event =
    Open string int
  | Mmap int bool
  | Munmap int
  | Close int
  | Pwrite int buf4 int
  | Pread int int
  | Load32 int
  | Store32 int cint
  | Printf_waiting string
  | Printf_interrupt nat nat int
  | Printf_word cint cint

fun is_pwrite :: "event \<Rightarrow> bool" where
  "is_pwrite (Pwrite _ _ _) = True"
| "is_pwrite _ = False"

fun is_pread :: "event \<Rightarrow> bool" where
  "is_pread (Pread _ _) = True"
| "is_pread _ = False"

text \<open>How a run ends: the process exits with a status, after printing messages.\<close>

datatype ending = Exited exit_status "message list"

text \<open>
  The result of a run. \<open>ending\<close> is \<open>None\<close> when the process has not ended: the monitor
  loop is still running after all the interrupts that were observed.
\<close>

record run =
  ending :: "ending option"
  events :: "event list"
  memory :: "int \<Rightarrow> byte"

subsection \<open>The environment\<close>

text \<open>
  One pass of the monitor loop, as the kernel answers it: the return value of \<^verbatim>\<open>pwrite\<close>,
  the return value of \<^verbatim>\<open>pread\<close>, the four bytes \<^verbatim>\<open>pread\<close> left in \<^verbatim>\<open>buf\<close>, and the time
  \<^verbatim>\<open>ftime\<close> reports (seconds, milliseconds).
\<close>

record wake =
  wr_ret :: int
  rd_ret :: int
  rd_buf :: buf4
  tp_time :: nat
  tp_millitm :: nat

text \<open>
  The platform and the device. Whether plain \<^verbatim>\<open>char\<close> is signed and the byte order of a
  word are fixed by the platform; \<open>open_ret\<close> is what \<^verbatim>\<open>open\<close> returns, \<open>mmap_fails\<close>
  whether \<^verbatim>\<open>mmap\<close> returns \<^verbatim>\<open>MAP_FAILED\<close>, \<open>dev_mem\<close> the byte the process finds at each
  offset from the pointer \<^verbatim>\<open>mmap\<close> returns (region 0 of the device from offset 0 on), and
  \<open>wakes\<close> the kernel's answers to the passes of the monitor loop.
\<close>

record env =
  char_signed :: bool
  big_endian :: bool
  open_ret :: int
  mmap_fails :: bool
  dev_mem :: "int \<Rightarrow> byte"
  wakes :: "wake list"

subsection \<open>monitor\<close>

text \<open>\<^verbatim>\<open>char startval[] = {0,0,0,1};\<close>\<close>

definition startval :: buf4 where
  "startval = (0, 0, 0, 1)"

text \<open>
  A \<^verbatim>\<open>char\<close> in an arithmetic expression is promoted to \<^verbatim>\<open>int\<close>: sign-extended where
  \<^verbatim>\<open>char\<close> is signed, zero-extended where it is unsigned.
\<close>

definition promote :: "bool \<Rightarrow> byte \<Rightarrow> cint" where
  "promote cs c = (if cs then scast c else ucast c)"

text \<open>
  The argument of \<^verbatim>\<open>%d\<close> in line 102-103:
  \<^verbatim>\<open>(buf[3] * 16777216 + buf[2] * 65536 + buf[1] * 256 + buf[0])\<close>,
  computed in \<^verbatim>\<open>int\<close> and printed as a signed decimal.
\<close>

fun interrupt_count :: "bool \<Rightarrow> buf4 \<Rightarrow> int" where
  "interrupt_count cs (b0, b1, b2, b3) =
     sint (promote cs b3 * 16777216 + promote cs b2 * 65536 + promote cs b1 * 256
           + promote cs b0)"

text \<open>
  The \<^verbatim>\<open>do ... while (forever)\<close> loop, one \<open>wake\<close> per pass. It returns the events of
  the loop and of the \<^verbatim>\<open>close\<close> after it, and how the process ended; \<open>None\<close> when the
  loop is still running after the last answer observed.
\<close>

fun monitor_loop :: "bool \<Rightarrow> cint \<Rightarrow> int \<Rightarrow> wake list \<Rightarrow> event list \<times> ending option" where
  "monitor_loop cs forever fd [] = ([], None)"
| "monitor_loop cs forever fd (k # ks) =
     (if wr_ret k \<noteq> 4 then
        ([Pwrite fd startval (wr_ret k)], Some (Exited EXIT_FAILURE [Perror, Problem_clearing]))
      else if rd_ret k \<noteq> 4 then
        ([Pwrite fd startval (wr_ret k), Pread fd (rd_ret k)],
         Some (Exited EXIT_FAILURE [Perror, Problem_reading]))
      else if forever \<noteq> 0 then
        (case monitor_loop cs forever fd ks of (evs, r) \<Rightarrow>
          (Pwrite fd startval (wr_ret k) # Pread fd (rd_ret k)
             # Printf_interrupt (tp_time k) (tp_millitm k) (interrupt_count cs (rd_buf k))
             # evs, r))
      else
        ([Pwrite fd startval (wr_ret k), Pread fd (rd_ret k),
          Printf_interrupt (tp_time k) (tp_millitm k) (interrupt_count cs (rd_buf k)),
          Close fd],
         Some (Exited EXIT_SUCCESS [])))"

definition monitor :: "env \<Rightarrow> string \<Rightarrow> cint \<Rightarrow> run" where
  "monitor e fpath forever =
     (let fd = open_ret e in
      if fd < 1 then
        \<lparr>ending = Some (Exited EXIT_FAILURE [Perror, Couldnt_open fpath]),
         events = [Printf_waiting fpath, Open fpath fd],
         memory = dev_mem e\<rparr>
      else
        (case monitor_loop (char_signed e) forever fd (wakes e) of (evs, r) \<Rightarrow>
          \<lparr>ending = r,
           events = Printf_waiting fpath # Open fpath fd # evs,
           memory = dev_mem e\<rparr>))"

subsection \<open>The mapped memory\<close>

text \<open>
  The mapping is shared, so the mapped memory is the device's memory: a byte for each
  offset from the start of the mapping. \<^verbatim>\<open>*((unsigned *) (ptr + addr))\<close> reads or writes
  the four bytes from offset \<open>addr\<close> on, in the byte order of the platform. The program
  checks no offset against the length it mapped, and neither does the model: an access
  is carried out at whatever offset \<open>addr\<close> holds.
\<close>

definition word_of_bytes :: "byte \<Rightarrow> byte \<Rightarrow> byte \<Rightarrow> byte \<Rightarrow> cint" where
  "word_of_bytes b0 b1 b2 b3 =
     ucast b0 OR push_bit 8 (ucast b1) OR push_bit 16 (ucast b2) OR push_bit 24 (ucast b3)"

definition byte_of_word :: "nat \<Rightarrow> cint \<Rightarrow> byte" where
  "byte_of_word k v = ucast (drop_bit (8 * k) v)"

definition load32 :: "bool \<Rightarrow> (int \<Rightarrow> byte) \<Rightarrow> int \<Rightarrow> cint" where
  "load32 be m a =
     (if be then word_of_bytes (m (a + 3)) (m (a + 2)) (m (a + 1)) (m a)
      else word_of_bytes (m a) (m (a + 1)) (m (a + 2)) (m (a + 3)))"

definition store32 :: "bool \<Rightarrow> (int \<Rightarrow> byte) \<Rightarrow> int \<Rightarrow> cint \<Rightarrow> (int \<Rightarrow> byte)" where
  "store32 be m a v =
     (if be then
        m(a := byte_of_word 3 v, a + 1 := byte_of_word 2 v,
          a + 2 := byte_of_word 1 v, a + 3 := byte_of_word 0 v)
      else
        m(a := byte_of_word 0 v, a + 1 := byte_of_word 1 v,
          a + 2 := byte_of_word 2 v, a + 3 := byte_of_word 3 v))"

subsection \<open>main: reading and writing words\<close>

text \<open>
  The read loop of lines 227 to 231:
  \<^verbatim>\<open>for (; count > 0; count--) { value = *((unsigned *) (ptr + addr));
      printf("0x%08x\t%08x\n", addr, value); addr += width; }\<close>
  The result is the events of the loop.
\<close>

function read_loop ::
  "bool \<Rightarrow> (int \<Rightarrow> byte) \<Rightarrow> cint \<Rightarrow> cint \<Rightarrow> cint \<Rightarrow> event list" where
  "read_loop be m count addr width =
     (if 0 <s count then
        Load32 (sint addr) # Printf_word addr (load32 be m (sint addr))
          # read_loop be m (count - 1) (addr + width) width
      else [])"
  by pat_completeness auto

termination
proof (relation "measure (\<lambda>(be, m, count, addr, width). nat (sint count))")
  show "wf (measure (\<lambda>(be, m, count, addr, width). nat (sint count)))"
    by simp
next
  fix be :: bool and m :: "int \<Rightarrow> byte" and count addr width :: cint
  assume "0 <s count"
  then have pos: "0 < sint count"
    by (simp add: word_sless_alt)
  have "sint count < 2 ^ 31"
    using sint_lt [of count] by simp
  with pos have "signed_take_bit 31 (sint count - 1) = sint count - 1"
    by (intro signed_take_bit_int_eq_self) auto
  then have "sint (count - 1) = sint count - 1"
    by (simp add: sint_word_diff)
  with pos show "((be, m, count - 1, addr + width, width), (be, m, count, addr, width))
      \<in> measure (\<lambda>(be, m, count, addr, width). nat (sint count))"
    by simp
qed

declare read_loop.simps [simp del]

text \<open>
  Lines 207 to 240 of \<^verbatim>\<open>main\<close>: open the device, map \<open>map_size + addr\<close> bytes of it, read
  \<open>count\<close> words or write one, unmap and close. The length reaches \<^verbatim>\<open>mmap\<close> and
  \<^verbatim>\<open>munmap\<close> as the value of the \<^verbatim>\<open>int\<close> expression.
\<close>

definition main_rw ::
  "env \<Rightarrow> mode_type \<Rightarrow> string \<Rightarrow> cint \<Rightarrow> cint \<Rightarrow> cint \<Rightarrow> cint \<Rightarrow> run" where
  "main_rw e mode fpath addr val count width =
     (let map_size = count * width;
          fd = open_ret e;
          len = sint (map_size + addr)
      in
      if fd < 1 then
        \<lparr>ending = Some (Exited EXIT_FAILURE [Perror, Couldnt_open fpath]),
         events = [Open fpath fd],
         memory = dev_mem e\<rparr>
      else if mmap_fails e then
        \<lparr>ending = Some (Exited EXIT_FAILURE [Perror, Couldnt_mmap]),
         events = [Open fpath fd, Mmap len False],
         memory = dev_mem e\<rparr>
      else if mode = MODE_READ then
        \<lparr>ending = Some (Exited EXIT_SUCCESS []),
         events = Open fpath fd # Mmap len True
                    # read_loop (big_endian e) (dev_mem e) count addr width
                    @ [Munmap (sint map_size), Close fd],
         memory = dev_mem e\<rparr>
      else
        \<lparr>ending = Some (Exited EXIT_SUCCESS []),
         events = [Open fpath fd, Mmap len True, Store32 (sint addr) val,
                   Munmap (sint map_size), Close fd],
         memory = store32 (big_endian e) (dev_mem e) (sint addr) val\<rparr>)"

subsection \<open>main: the command line\<close>

text \<open>
  The command line as \<^verbatim>\<open>getopt\<close> and \<^verbatim>\<open>strtoul\<close> present it. An option that takes a number
  carries what \<^verbatim>\<open>strtoul\<close> returns for its argument and whether \<^verbatim>\<open>strtoul\<close> set
  \<^verbatim>\<open>errno\<close>; \<open>Opt_unknown\<close> is any option character \<^verbatim>\<open>getopt\<close> does not accept. A
  positional argument carries its text and the same two results of \<^verbatim>\<open>strtoul\<close>.
\<close>

datatype opt =
    Opt_h
  | Opt_l
  | Opt_m
  | Opt_x
  | Opt_r nat bool
  | Opt_n nat bool
  | Opt_w nat bool
  | Opt_unknown

datatype arg = Arg string nat bool

record settings =
  st_mode :: mode_type
  st_region :: cint
  st_count :: cint
  st_width :: cint
  st_forever :: cint

text \<open>
  \<^verbatim>\<open>enum mode_type mode = MODE_READ; int region = 0; int count = 1;
  int width = DEFAULT_WIDTH; int forever = 1;\<close>
\<close>

definition init_settings :: settings where
  "init_settings =
     \<lparr>st_mode = MODE_READ, st_region = 0, st_count = 1, st_width = 4, st_forever = 1\<rparr>"

text \<open>
  The \<^verbatim>\<open>while ((c = getopt(...)) != -1)\<close> loop with its \<^verbatim>\<open>switch\<close>. The value of
  \<^verbatim>\<open>strtoul\<close> is converted to \<^verbatim>\<open>int\<close> by the assignment. \<open>Inl\<close> is an exit inside the
  loop.
\<close>

fun getopt_loop :: "opt list \<Rightarrow> settings \<Rightarrow> (exit_status \<times> message list) + settings" where
  "getopt_loop [] s = Inr s"
| "getopt_loop (Opt_h # os) s = Inl (EXIT_SUCCESS, [Usage])"
| "getopt_loop (Opt_l # os) s = Inl (EXIT_FAILURE, [Listing_not_yet_implemented])"
| "getopt_loop (Opt_m # os) s = getopt_loop os (s\<lparr>st_mode := MODE_MONITOR\<rparr>)"
| "getopt_loop (Opt_x # os) s = getopt_loop os (s\<lparr>st_mode := MODE_MONITOR, st_forever := 0\<rparr>)"
| "getopt_loop (Opt_r v err # os) s =
     (let region = of_nat v in
      if err then Inl (EXIT_FAILURE, [Perror])
      else if region \<noteq> 0 then Inl (EXIT_FAILURE, [Region_not_yet_implemented])
      else getopt_loop os (s\<lparr>st_region := region\<rparr>))"
| "getopt_loop (Opt_n v err # os) s =
     (let count = of_nat v in
      if err then Inl (EXIT_FAILURE, [Perror])
      else getopt_loop os (s\<lparr>st_count := count\<rparr>))"
| "getopt_loop (Opt_w v err # os) s =
     (let width = of_nat v in
      if err then Inl (EXIT_FAILURE, [Perror])
      else if width \<noteq> 4 then Inl (EXIT_FAILURE, [Width_not_yet_implemented])
      else getopt_loop os (s\<lparr>st_width := width\<rparr>))"
| "getopt_loop (Opt_unknown # os) s = Inl (EXIT_FAILURE, [Unexpected_argument])"

definition exit_early :: "env \<Rightarrow> exit_status \<Rightarrow> message list \<Rightarrow> run" where
  "exit_early e st ms = \<lparr>ending = Some (Exited st ms), events = [], memory = dev_mem e\<rparr>"

text \<open>
  \<^verbatim>\<open>main\<close>. After the options, monitor mode takes one argument, a read two and a write
  three. \<^verbatim>\<open>monitor\<close> does not return. In a read \<^verbatim>\<open>value\<close> is assigned in the loop before
  it is used; the model passes 0 for it.
\<close>

definition main :: "env \<Rightarrow> opt list \<Rightarrow> arg list \<Rightarrow> run" where
  "main e opts args =
     (case getopt_loop opts init_settings of
        Inl (st, ms) \<Rightarrow> exit_early e st ms
      | Inr s \<Rightarrow>
          if st_mode s = MODE_MONITOR then
            (case args of
               [Arg fpath _ _] \<Rightarrow> monitor e fpath (st_forever s)
             | _ \<Rightarrow> exit_early e EXIT_FAILURE [Wrong_number_of_arguments])
          else
            (case args of
               [Arg fpath _ _, Arg _ a aerr] \<Rightarrow>
                 if aerr then exit_early e EXIT_FAILURE [Perror]
                 else main_rw e MODE_READ fpath (of_nat a) 0 (st_count s) (st_width s)
             | [Arg fpath _ _, Arg _ a aerr, Arg _ v verr] \<Rightarrow>
                 if aerr \<or> verr then exit_early e EXIT_FAILURE [Perror]
                 else main_rw e MODE_WRITE fpath (of_nat a) (of_nat v) (st_count s) (st_width s)
             | _ \<Rightarrow> exit_early e EXIT_FAILURE [Wrong_number_of_arguments]))"

subsection \<open>Observations on a run\<close>

text \<open>The lines \<^verbatim>\<open>0x%08x\t%08x\<close> a run printed: address and value, in order.\<close>

fun printed :: "event list \<Rightarrow> (cint \<times> cint) list" where
  "printed [] = []"
| "printed (Printf_word a v # es) = (a, v) # printed es"
| "printed (_ # es) = printed es"

text \<open>The byte offsets an event touches in the mapped memory.\<close>

fun accessed :: "event \<Rightarrow> int list" where
  "accessed (Load32 off) = [off, off + 1, off + 2, off + 3]"
| "accessed (Store32 off v) = [off, off + 1, off + 2, off + 3]"
| "accessed _ = []"

fun is_store :: "event \<Rightarrow> bool" where
  "is_store (Store32 _ _) = True"
| "is_store _ = False"

text \<open>The lengths of the mappings a run established, and whether every offset the run
  touched lies inside a mapping of \<open>len\<close> bytes.\<close>

fun mapped :: "event list \<Rightarrow> int list" where
  "mapped [] = []"
| "mapped (Mmap len ok # es) = (if ok then len # mapped es else mapped es)"
| "mapped (_ # es) = mapped es"

definition covered :: "int \<Rightarrow> event list \<Rightarrow> bool" where
  "covered len evs = list_all (\<lambda>off. 0 \<le> off \<and> off < len) (concat (map accessed evs))"

text \<open>The transfers of the monitor loop, and those of fewer than 4 bytes.\<close>

fun is_rw :: "event \<Rightarrow> bool" where
  "is_rw (Pwrite _ _ _) = True"
| "is_rw (Pread _ _) = True"
| "is_rw _ = False"

fun short_transfer :: "event \<Rightarrow> bool" where
  "short_transfer (Pwrite _ _ n) = (n \<noteq> 4)"
| "short_transfer (Pread _ n) = (n \<noteq> 4)"
| "short_transfer _ = False"

text \<open>The two exits of the monitor loop on a short transfer.\<close>

definition io_failure :: "ending option \<Rightarrow> bool" where
  "io_failure r = (r = Some (Exited EXIT_FAILURE [Perror, Problem_clearing])
                 \<or> r = Some (Exited EXIT_FAILURE [Perror, Problem_reading]))"

text \<open>
  The options of a command line, read as the requests they are. \<open>passes\<close>: an option
  that asks for nothing the program refuses, after which the option loop goes on.
  \<open>unsupported\<close>: an option that supplies a region other than 0 or a width other than 4,
  a number below \<open>2 ^ 32\<close> that \<^verbatim>\<open>strtoul\<close> accepted, with the message of its rejection.
  \<open>ends_run\<close>: an option that ends the run whatever follows it, with the exit status and
  the message: \<^verbatim>\<open>-h\<close>, \<^verbatim>\<open>-l\<close>, an unknown option, a number \<^verbatim>\<open>strtoul\<close> reports an error
  for.
\<close>

fun passes :: "opt \<Rightarrow> bool" where
  "passes Opt_m = True"
| "passes Opt_x = True"
| "passes (Opt_r v err) = (\<not> err \<and> v = 0)"
| "passes (Opt_n v err) = (\<not> err)"
| "passes (Opt_w v err) = (\<not> err \<and> v = 4)"
| "passes _ = False"

fun unsupported :: "opt \<Rightarrow> message option" where
  "unsupported (Opt_r v err) =
     (if \<not> err \<and> v \<noteq> 0 \<and> v < 2 ^ 32 then Some Region_not_yet_implemented else None)"
| "unsupported (Opt_w v err) =
     (if \<not> err \<and> v \<noteq> 4 \<and> v < 2 ^ 32 then Some Width_not_yet_implemented else None)"
| "unsupported _ = None"

fun ends_run :: "opt \<Rightarrow> (exit_status \<times> message list) option" where
  "ends_run Opt_h = Some (EXIT_SUCCESS, [Usage])"
| "ends_run Opt_l = Some (EXIT_FAILURE, [Listing_not_yet_implemented])"
| "ends_run Opt_unknown = Some (EXIT_FAILURE, [Unexpected_argument])"
| "ends_run (Opt_r v err) = (if err then Some (EXIT_FAILURE, [Perror]) else None)"
| "ends_run (Opt_n v err) = (if err then Some (EXIT_FAILURE, [Perror]) else None)"
| "ends_run (Opt_w v err) = (if err then Some (EXIT_FAILURE, [Perror]) else None)"
| "ends_run _ = None"

text \<open>The events of \<open>n\<close> passes of the read loop from \<open>addr\<close> on, with the width 4.\<close>

fun word_events :: "bool \<Rightarrow> (int \<Rightarrow> byte) \<Rightarrow> cint \<Rightarrow> nat \<Rightarrow> event list" where
  "word_events be m addr 0 = []"
| "word_events be m addr (Suc n) =
     Load32 (sint addr) # Printf_word addr (load32 be m (sint addr))
       # word_events be m (addr + 4) n"

subsection \<open>A device for the examples\<close>

text \<open>
  A little-endian platform with signed \<^verbatim>\<open>char\<close>; the device holds the word
  \<open>0xDEADBEEF\<close> at offset 0 and the word 1 at offset 4; the kernel answers one pass of the
  monitor loop, with the count 5.
\<close>

definition uio0_mem :: "int \<Rightarrow> byte" where
  "uio0_mem = (\<lambda>_. 0)(0 := 0xEF, 1 := 0xBE, 2 := 0xAD, 3 := 0xDE, 4 := 1)"

definition uio0 :: env where
  "uio0 = \<lparr>char_signed = True, big_endian = False, open_ret = 3, mmap_fails = False,
           dev_mem = uio0_mem,
           wakes = [\<lparr>wr_ret = 4, rd_ret = 4, rd_buf = (5, 0, 0, 0),
                     tp_time = 0, tp_millitm = 0\<rparr>]\<rparr>"

subsection \<open>The byte interpretation of the specification\<close>

text \<open>
  The unsigned little-endian value of four bytes, in the words of the specification:
  \<open>buf[0] + 256*buf[1] + 65536*buf[2] + 16777216*buf[3]\<close>, all bytes unsigned.
\<close>

fun le_unsigned :: "buf4 \<Rightarrow> int" where
  "le_unsigned (b0, b1, b2, b3) =
     uint b0 + 256 * uint b1 + 65536 * uint b2 + 16777216 * uint b3"

section \<open>Properties\<close>

subsection \<open>Arithmetic of \<^verbatim>\<open>int\<close> without overflow\<close>

lemma sint_pred_pos: "0 < sint (c :: cint) \<Longrightarrow> sint (c - 1) = sint c - 1"
proof -
  assume pos: "0 < sint c"
  have "sint c < 2 ^ 31"
    using sint_lt [of c] by simp
  with pos have "signed_take_bit 31 (sint c - 1) = sint c - 1"
    by (intro signed_take_bit_int_eq_self) auto
  then show ?thesis
    by (simp add: sint_word_diff)
qed

lemma sint_add4:
  assumes "0 \<le> sint (a :: cint)" and "sint a + 4 < 2 ^ 31"
  shows "sint (a + 4) = sint a + 4"
proof -
  from assms have "signed_take_bit 31 (sint a + 4) = sint a + 4"
    by (intro signed_take_bit_int_eq_self) auto
  then show ?thesis
    by (simp add: sint_word_add)
qed

lemma sint_mul4_add:
  assumes "0 \<le> sint (a :: cint)" and "0 \<le> sint (c :: cint)"
    and "sint a + 4 * sint c < 2 ^ 31"
  shows "sint (c * 4 + a) = sint a + 4 * sint c" and "sint (c * 4) = 4 * sint c"
proof -
  from assms have "signed_take_bit 31 (sint c * 4) = sint c * 4"
    by (intro signed_take_bit_int_eq_self) auto
  then show m: "sint (c * 4) = 4 * sint c"
    by (simp add: sint_word_mult)
  from assms have "signed_take_bit 31 (4 * sint c + sint a) = 4 * sint c + sint a"
    by (intro signed_take_bit_int_eq_self) auto
  then show "sint (c * 4 + a) = sint a + 4 * sint c"
    by (simp add: sint_word_add m)
qed

subsection \<open>Words and bytes\<close>

lemma word_of_bytes_of_word:
  "word_of_bytes (byte_of_word 0 v) (byte_of_word 1 v) (byte_of_word 2 v) (byte_of_word 3 v) = v"
proof (rule bit_word_eqI)
  fix n :: nat
  assume "n < LENGTH(32)"
  then have n: "n < 32"
    by simp
  consider "n < 8" | "8 \<le> n" "n < 16" | "16 \<le> n" "n < 24" | "24 \<le> n" "n < 32"
    using n by linarith
  then show "bit (word_of_bytes (byte_of_word 0 v) (byte_of_word 1 v)
                    (byte_of_word 2 v) (byte_of_word 3 v)) n = bit v n"
    by cases (auto simp: word_of_bytes_def byte_of_word_def bit_simps)
qed

lemma load32_store32: "load32 be (store32 be m a v) a = v"
  using word_of_bytes_of_word [of v] by (simp add: load32_def store32_def)

lemma store32_frame: "\<not> (a \<le> i \<and> i < a + 4) \<Longrightarrow> store32 be m a v i = m i"
  by (auto simp add: store32_def)

subsection \<open>The read loop\<close>

lemma read_loop_word_events:
  "read_loop be m count addr 4 = word_events be m addr (nat (sint count))"
proof (induction "nat (sint count)" arbitrary: count addr)
  case 0
  then have "\<not> 0 <s count"
    by (simp add: word_sless_alt)
  with 0 show ?case
    by (simp add: read_loop.simps [of _ _ count])
next
  case (Suc n)
  then have pos: "0 < sint count"
    by linarith
  then have lt: "0 <s count"
    by (simp add: word_sless_alt)
  have c1: "sint (count - 1) = sint count - 1"
    using pos by (rule sint_pred_pos)
  have "read_loop be m (count - 1) (addr + 4) 4
      = word_events be m (addr + 4) (nat (sint (count - 1)))"
    using Suc.hyps(2) c1 by (intro Suc.hyps(1)) auto
  moreover have "nat (sint count) = Suc (nat (sint (count - 1)))"
    using c1 pos by simp
  ultimately show ?case
    using lt by (simp add: read_loop.simps [of _ _ count])
qed

lemma printed_word_events:
  "0 \<le> sint addr \<Longrightarrow> sint addr + 4 * int n < 2 ^ 31 \<Longrightarrow>
   map (\<lambda>(a, v). (sint a, v)) (printed (word_events be m addr n))
     = map (\<lambda>k. (sint addr + 4 * int k, load32 be m (sint addr + 4 * int k))) [0..<n]"
proof (induction n arbitrary: addr)
  case 0
  then show ?case
    by simp
next
  case (Suc n)
  have a4: "sint (addr + 4) = sint addr + 4"
    using Suc.prems by (intro sint_add4) auto
  have "map (\<lambda>(a, v). (sint a, v)) (printed (word_events be m (addr + 4) n))
     = map (\<lambda>k. (sint (addr + 4) + 4 * int k, load32 be m (sint (addr + 4) + 4 * int k)))
         [0..<n]"
    using Suc.prems a4 by (intro Suc.IH) auto
  then show ?case
    using Suc.prems
    by (simp add: a4 upt_conv_Cons map_Suc_upt [symmetric] algebra_simps del: upt_Suc)
qed

lemma ascending_addresses: "sorted_wrt (<) (map (\<lambda>k. (a::int) + 4 * int k) [0..<n])"
  by (simp add: sorted_wrt_map)

lemma printed_append [simp]: "printed (xs @ ys) = printed xs @ printed ys"
  by (induction xs rule: printed.induct) auto

lemma accessed_word_events:
  "0 \<le> sint addr \<Longrightarrow> sint addr + 4 * int n \<le> len \<Longrightarrow> len < 2 ^ 31 \<Longrightarrow>
   covered len (word_events be m addr n)"
proof (induction n arbitrary: addr)
  case 0
  then show ?case
    by (simp add: covered_def)
next
  case (Suc n)
  have a4: "sint (addr + 4) = sint addr + 4"
    using Suc.prems by (intro sint_add4) auto
  have "covered len (word_events be m (addr + 4) n)"
    using Suc.prems a4 by (intro Suc.IH) auto
  then show ?case
    using Suc.prems by (simp add: covered_def)
qed

lemma covered_append [simp]: "covered len (xs @ ys) = (covered len xs \<and> covered len ys)"
  by (simp add: covered_def)

lemma mapped_word_events [simp]: "mapped (word_events be m addr n @ es) = mapped es"
  by (induction n arbitrary: addr) auto

subsection \<open>The monitor loop\<close>

lemma loop_no_success:
  "forever \<noteq> 0 \<Longrightarrow>
   snd (monitor_loop cs forever fd ks) = None \<or> io_failure (snd (monitor_loop cs forever fd ks))"
  by (induction ks) (auto simp: io_failure_def split: prod.splits)

lemma loop_running:
  "forever \<noteq> 0 \<Longrightarrow> \<forall>k\<in>set ks. wr_ret k = 4 \<and> rd_ret k = 4 \<Longrightarrow>
   snd (monitor_loop cs forever fd ks) = None
   \<and> length (filter is_pwrite (fst (monitor_loop cs forever fd ks))) = length ks
   \<and> length (filter is_pread (fst (monitor_loop cs forever fd ks))) = length ks"
proof (induction ks)
  case Nil
  show ?case
    by simp
next
  case (Cons k ks)
  from Cons.prems have full: "wr_ret k = 4" "rd_ret k = 4"
    by simp_all
  obtain evs r where rest: "monitor_loop cs forever fd ks = (evs, r)"
    by (cases "monitor_loop cs forever fd ks")
  from Cons.prems have "\<forall>k\<in>set ks. wr_ret k = 4 \<and> rd_ret k = 4"
    by simp
  with Cons.IH Cons.prems(1) rest
  have ih: "r = None" "length (filter is_pwrite evs) = length ks"
    "length (filter is_pread evs) = length ks"
    by simp_all
  have "monitor_loop cs forever fd (k # ks)
      = (Pwrite fd startval 4 # Pread fd 4
           # Printf_interrupt (tp_time k) (tp_millitm k) (interrupt_count cs (rd_buf k)) # evs, r)"
    using full Cons.prems(1) rest by simp
  then show ?case
    using ih by simp
qed

lemma loop_io_Cons:
  "filter is_rw (fst (monitor_loop cs forever fd (k # ks))) =
     (if wr_ret k \<noteq> 4 then [Pwrite fd startval (wr_ret k)]
      else if rd_ret k \<noteq> 4 then [Pwrite fd startval 4, Pread fd (rd_ret k)]
      else if forever \<noteq> 0 then
        Pwrite fd startval 4 # Pread fd 4 # filter is_rw (fst (monitor_loop cs forever fd ks))
      else [Pwrite fd startval 4, Pread fd 4])"
  by (simp split: prod.splits)

lemma loop_pairs:
  "2 * i + 1 < length (filter is_rw (fst (monitor_loop cs forever fd ks))) \<Longrightarrow>
   filter is_rw (fst (monitor_loop cs forever fd ks)) ! (2 * i) = Pwrite fd startval 4
   \<and> is_pread (filter is_rw (fst (monitor_loop cs forever fd ks)) ! (2 * i + 1))"
proof (induction ks arbitrary: i)
  case Nil
  then show ?case
    by simp
next
  case (Cons k ks)
  let ?io = "filter is_rw (fst (monitor_loop cs forever fd (k # ks)))"
  let ?io' = "filter is_rw (fst (monitor_loop cs forever fd ks))"
  consider (a) "wr_ret k \<noteq> 4" | (b) "wr_ret k = 4" "rd_ret k \<noteq> 4"
    | (c) "wr_ret k = 4" "rd_ret k = 4" "forever \<noteq> 0"
    | (d) "wr_ret k = 4" "rd_ret k = 4" "forever = 0"
    by blast
  then show ?case
  proof cases
    case a
    then have "?io = [Pwrite fd startval (wr_ret k)]"
      by (subst loop_io_Cons) simp
    with Cons.prems show ?thesis
      by simp
  next
    case b
    then have io: "?io = [Pwrite fd startval 4, Pread fd (rd_ret k)]"
      by (subst loop_io_Cons) simp
    with Cons.prems have "i = 0"
      by simp
    with io show ?thesis
      by simp
  next
    case c
    then have io: "?io = Pwrite fd startval 4 # Pread fd 4 # ?io'"
      by (subst loop_io_Cons) simp
    show ?thesis
    proof (cases i)
      case 0
      with io show ?thesis
        by simp
    next
      case (Suc i')
      with Cons.prems io have "2 * i' + 1 < length ?io'"
        by simp
      then have "?io' ! (2 * i') = Pwrite fd startval 4 \<and> is_pread (?io' ! (2 * i' + 1))"
        by (rule Cons.IH)
      with Suc io show ?thesis
        by simp
    qed
  next
    case d
    then have io: "?io = [Pwrite fd startval 4, Pread fd 4]"
      by (subst loop_io_Cons) simp
    with Cons.prems have "i = 0"
      by simp
    with io show ?thesis
      by simp
  qed
qed

lemma loop_short:
  "j < length (fst (monitor_loop cs forever fd ks)) \<Longrightarrow>
   short_transfer (fst (monitor_loop cs forever fd ks) ! j) \<Longrightarrow>
   Suc j = length (fst (monitor_loop cs forever fd ks))
   \<and> io_failure (snd (monitor_loop cs forever fd ks))"
proof (induction ks arbitrary: j)
  case Nil
  then show ?case
    by simp
next
  case (Cons k ks)
  obtain evs r where rest: "monitor_loop cs forever fd ks = (evs, r)"
    by (cases "monitor_loop cs forever fd ks")
  let ?p = "Printf_interrupt (tp_time k) (tp_millitm k) (interrupt_count cs (rd_buf k))"
  consider (a) "wr_ret k \<noteq> 4" | (b) "wr_ret k = 4" "rd_ret k \<noteq> 4"
    | (c) "wr_ret k = 4" "rd_ret k = 4" "forever \<noteq> 0"
    | (d) "wr_ret k = 4" "rd_ret k = 4" "forever = 0"
    by blast
  then show ?case
  proof cases
    case a
    then have "monitor_loop cs forever fd (k # ks)
        = ([Pwrite fd startval (wr_ret k)], Some (Exited EXIT_FAILURE [Perror, Problem_clearing]))"
      by simp
    with Cons.prems show ?thesis
      by (simp add: io_failure_def)
  next
    case b
    then have eq: "monitor_loop cs forever fd (k # ks)
        = ([Pwrite fd startval 4, Pread fd (rd_ret k)],
           Some (Exited EXIT_FAILURE [Perror, Problem_reading]))"
      by simp
    with Cons.prems have "j = 0 \<or> j = 1"
      by auto
    with Cons.prems eq show ?thesis
      by (auto simp: io_failure_def)
  next
    case c
    then have eq: "monitor_loop cs forever fd (k # ks)
        = (Pwrite fd startval 4 # Pread fd 4 # ?p # evs, r)"
      using rest by simp
    have "\<exists>j'. j = Suc (Suc (Suc j'))"
    proof (rule ccontr)
      assume "\<not> (\<exists>j'. j = Suc (Suc (Suc j')))"
      then have "j = 0 \<or> j = 1 \<or> j = 2"
        by presburger
      with Cons.prems(2) eq show False
        by auto
    qed
    then obtain j' where j: "j = Suc (Suc (Suc j'))" ..
    with Cons.prems eq rest have "j' < length (fst (monitor_loop cs forever fd ks))"
      and "short_transfer (fst (monitor_loop cs forever fd ks) ! j')"
      by simp_all
    then have "Suc j' = length (fst (monitor_loop cs forever fd ks))
        \<and> io_failure (snd (monitor_loop cs forever fd ks))"
      by (rule Cons.IH)
    with j eq rest show ?thesis
      by simp
  next
    case d
    then have eq: "monitor_loop cs forever fd (k # ks)
        = ([Pwrite fd startval 4, Pread fd 4, ?p, Close fd], Some (Exited EXIT_SUCCESS []))"
      by simp
    from Cons.prems(1) eq have "j = 0 \<or> j = 1 \<or> j = 2 \<or> j = 3"
      by auto
    with Cons.prems(2) eq show ?thesis
      by auto
  qed
qed

subsection \<open>The option loop\<close>

lemma of_nat_cint_eq:
  "v < 2 ^ 32 \<Longrightarrow> w < 2 ^ 32 \<Longrightarrow> ((of_nat v :: cint) = of_nat w) = (v = w)"
proof -
  assume "v < 2 ^ 32" and "w < 2 ^ 32"
  then have "unat (of_nat v :: cint) = v" and "unat (of_nat w :: cint) = w"
    by (simp_all add: unat_of_nat)
  then show ?thesis
    by metis
qed

lemma unsupported_stops:
  "unsupported x = Some msg \<Longrightarrow> getopt_loop (x # post) s = Inl (EXIT_FAILURE, [msg])"
proof (cases x)
  case (Opt_r v err)
  assume u: "unsupported x = Some msg"
  with Opt_r have "(of_nat v :: cint) \<noteq> 0"
    using of_nat_cint_eq [of v 0] by (auto split: if_splits)
  with u Opt_r show ?thesis
    by (auto simp: Let_def split: if_splits)
next
  case (Opt_w v err)
  assume u: "unsupported x = Some msg"
  with Opt_w have "(of_nat v :: cint) \<noteq> 4"
    using of_nat_cint_eq [of v 4] by (auto split: if_splits)
  with u Opt_w show ?thesis
    by (auto simp: Let_def split: if_splits)
qed auto

lemma getopt_stops:
  "\<exists>x\<in>set opts. unsupported x \<noteq> None \<Longrightarrow> \<exists>st ms. getopt_loop opts s = Inl (st, ms)"
proof (induction opts s rule: getopt_loop.induct)
  case (6 v err os s)
  show ?case
  proof (cases "unsupported (Opt_r v err) = None")
    case True
    with "6.prems" have "\<exists>x\<in>set os. unsupported x \<noteq> None"
      by auto
    with "6.IH" show ?thesis
      by (auto simp: Let_def)
  next
    case False
    then obtain msg where "unsupported (Opt_r v err) = Some msg"
      by auto
    then show ?thesis
      using unsupported_stops by blast
  qed
next
  case (8 v err os s)
  show ?case
  proof (cases "unsupported (Opt_w v err) = None")
    case True
    with "8.prems" have "\<exists>x\<in>set os. unsupported x \<noteq> None"
      by auto
    with "8.IH" show ?thesis
      by (auto simp: Let_def)
  next
    case False
    then obtain msg where "unsupported (Opt_w v err) = Some msg"
      by auto
    then show ?thesis
      using unsupported_stops by blast
  qed
qed (auto simp: Let_def)

lemma getopt_passes:
  "list_all passes pre \<Longrightarrow> \<exists>s'. getopt_loop (pre @ post) s = getopt_loop post s'"
  by (induction pre s rule: getopt_loop.induct) (auto simp: Let_def)

lemma ends_run_stops:
  "ends_run y = Some (st, ms) \<Longrightarrow> getopt_loop (y # post) s = Inl (st, ms)"
  by (cases y) (auto simp: Let_def split: if_splits)

subsection \<open>The count printed\<close>

text \<open>Where every byte is below 128 the line shows the unsigned little-endian value, whatever
  the signedness of \<^verbatim>\<open>char\<close>.\<close>

lemma promote_low: "b < 128 \<Longrightarrow> promote cs b = ucast b"
proof -
  assume "b < 128"
  then have u: "uint b < 128"
    by (simp add: word_less_def)
  have lo: "- 128 \<le> uint b"
    using uint_ge_0 [of b] by linarith
  from lo u have "signed_take_bit 7 (uint b) = uint b"
    by (intro signed_take_bit_int_eq_self) simp_all
  then have "sint b = uint b"
    by (simp add: sint_uint)
  then have "(scast b :: cint) = ucast b"
    by (metis of_int_sint of_int_uint)
  then show ?thesis
    by (simp add: promote_def)
qed

lemma interrupt_count_low_bytes:
  assumes "b0 < 128" and "b1 < 128" and "b2 < 128" and "b3 < 128"
  shows "interrupt_count cs (b0, b1, b2, b3) = le_unsigned (b0, b1, b2, b3)"
proof -
  have u: "uint b0 < 128" "uint b1 < 128" "uint b2 < 128" "uint b3 < 128"
    using assms by (simp_all add: word_less_def)
  let ?n = "uint b3 * 16777216 + uint b2 * 65536 + uint b1 * 256 + uint b0"
  have lo: "- 2147483648 \<le> ?n"
    using uint_ge_0 [of b0] uint_ge_0 [of b1] uint_ge_0 [of b2] uint_ge_0 [of b3] by linarith
  have hi: "?n < 2147483648"
    using u by linarith
  from lo hi have stb: "signed_take_bit 31 ?n = ?n"
    by (intro signed_take_bit_int_eq_self) simp_all
  have "interrupt_count cs (b0, b1, b2, b3) = sint (word_of_int ?n :: cint)"
    using assms by (simp add: promote_low)
  also have "\<dots> = signed_take_bit (LENGTH(32) - 1) ?n"
    by (rule sint_sbintrunc')
  also have "\<dots> = ?n"
    using stb by simp
  also have "\<dots> = le_unsigned (b0, b1, b2, b3)"
    by simp
  finally show ?thesis .
qed
subsection \<open>The claims\<close>

lemma le_unsigned_startval: "le_unsigned startval = 16777216"
  by (simp add: startval_def)

text \<open>
  C1. The claim: the 4 bytes written to acknowledge and re-arm the interrupt, decoded
  little-endian as the interrupt count is, equal 1. The code writes the bytes
  0, 0, 0, 1: in a single-shot run whose transfers are complete, the one \<^verbatim>\<open>pwrite\<close> carries
  them, and their little-endian value is 16777216.
\<close>

theorem monitor_ack_bytes_not_one:
  "events (monitor uio0 ''/dev/uio0'' 0)
     = [Printf_waiting ''/dev/uio0'', Open ''/dev/uio0'' 3, Pwrite 3 (0, 0, 0, 1) 4, Pread 3 4,
        Printf_interrupt 0 0 5, Close 3]
   \<and> le_unsigned (0, 0, 0, 1) = 16777216
   \<and> le_unsigned (0, 0, 0, 1) \<noteq> 1"
  by (simp add: monitor_def uio0_def startval_def promote_def)

text \<open>
  C5. A read of \<open>count\<close> words from \<open>addr\<close> (width 4), where the device opens and maps and
  neither number is negative nor \<open>addr + 4 * count\<close> beyond the range of \<^verbatim>\<open>int\<close>: the run
  succeeds and prints exactly \<open>count\<close> lines; the \<open>k\<close>-th line has the address
  \<open>addr + 4 * k\<close> and the word in platform byte order at that offset of the mapping; the
  addresses are strictly ascending.
\<close>

theorem read_words_sequence:
  assumes "1 \<le> open_ret e" and "\<not> mmap_fails e"
    and "0 \<le> sint addr" and "0 \<le> sint count" and "sint addr + 4 * sint count < 2 ^ 31"
  shows "ending (main_rw e MODE_READ fpath addr val count 4) = Some (Exited EXIT_SUCCESS [])
       \<and> length (printed (events (main_rw e MODE_READ fpath addr val count 4))) = nat (sint count)
       \<and> map (\<lambda>(a, v). (sint a, v)) (printed (events (main_rw e MODE_READ fpath addr val count 4)))
           = map (\<lambda>k. (sint addr + 4 * int k,
                        load32 (big_endian e) (dev_mem e) (sint addr + 4 * int k)))
               [0..<nat (sint count)]
       \<and> sorted_wrt (<)
           (map (\<lambda>(a, v). sint a) (printed (events (main_rw e MODE_READ fpath addr val count 4))))"
proof -
  let ?len = "sint (count * 4 + addr)"
  let ?n = "nat (sint count)"
  let ?ws = "word_events (big_endian e) (dev_mem e) addr ?n"
  have ev: "events (main_rw e MODE_READ fpath addr val count 4)
      = Open fpath (open_ret e) # Mmap ?len True # ?ws
          @ [Munmap (sint (count * 4)), Close (open_ret e)]"
    and en: "ending (main_rw e MODE_READ fpath addr val count 4) = Some (Exited EXIT_SUCCESS [])"
    using assms(1,2) by (simp_all add: main_rw_def Let_def read_loop_word_events)
  have pr: "printed (events (main_rw e MODE_READ fpath addr val count 4)) = printed ?ws"
    by (simp add: ev)
  have seq: "map (\<lambda>(a, v). (sint a, v)) (printed ?ws)
      = map (\<lambda>k. (sint addr + 4 * int k,
                   load32 (big_endian e) (dev_mem e) (sint addr + 4 * int k))) [0..<?n]"
    using assms(3-5) by (intro printed_word_events) auto
  have "map (\<lambda>(a, v). sint a) (printed ?ws)
      = map fst (map (\<lambda>(a, v). (sint a, v)) (printed ?ws))"
    by (simp add: case_prod_unfold comp_def)
  also have "\<dots> = map (\<lambda>k. sint addr + 4 * int k) [0..<?n]"
    by (simp add: seq comp_def)
  finally have asc: "sorted_wrt (<) (map (\<lambda>(a, v). sint a) (printed ?ws))"
    by (simp only: ascending_addresses)
  have "length (printed ?ws) = length (map (\<lambda>(a, v). (sint a, v)) (printed ?ws))"
    by simp
  also have "\<dots> = ?n"
    by (simp only: seq length_map length_upt)
  finally have ln: "length (printed ?ws) = ?n" .
  show ?thesis
    using en pr seq asc ln by simp
qed

text \<open>
  C5, at the device of the examples: two words from address 0.
\<close>

theorem read_words_sequence_witness:
  "1 \<le> open_ret uio0 \<and> \<not> mmap_fails uio0 \<and> 0 \<le> sint (0 :: cint) \<and> 0 \<le> sint (2 :: cint)
   \<and> sint (0 :: cint) + 4 * sint (2 :: cint) < 2 ^ 31
   \<and> ending (main_rw uio0 MODE_READ ''/dev/uio0'' 0 0 2 4) = Some (Exited EXIT_SUCCESS [])
   \<and> map (\<lambda>(a, v). (sint a, v)) (printed (events (main_rw uio0 MODE_READ ''/dev/uio0'' 0 0 2 4)))
       = [(0, 0xDEADBEEF), (4, 1)]"
proof -
  have h: "1 \<le> open_ret uio0" "\<not> mmap_fails uio0" "0 \<le> sint (0 :: cint)" "0 \<le> sint (2 :: cint)"
    "sint (0 :: cint) + 4 * sint (2 :: cint) < 2 ^ 31"
    by (simp_all add: uio0_def)
  have ld: "load32 (big_endian uio0) (dev_mem uio0) 0 = 0xDEADBEEF"
    "load32 (big_endian uio0) (dev_mem uio0) 4 = 1"
    by (simp_all add: uio0_def uio0_mem_def load32_def word_of_bytes_def)
  have n: "[0..<nat (sint (2 :: cint))] = [0, 1]"
    by (simp add: upt_conv_Cons)
  show ?thesis
    using h read_words_sequence [OF h, of "''/dev/uio0''" 0] ld n by simp
qed

text \<open>
  C4. Round trip: where the device opens and maps and \<open>addr\<close> is a non-negative address
  with \<open>addr + 4\<close> in the range of \<^verbatim>\<open>int\<close>, a write of \<open>val\<close> at \<open>addr\<close> succeeds, and a
  read of one word at \<open>addr\<close> from the memory the write left succeeds and prints exactly
  the line \<open>(addr, val)\<close>.
\<close>

theorem write_read_roundtrip:
  assumes "1 \<le> open_ret e" and "\<not> mmap_fails e" and "0 \<le> sint addr" and "sint addr + 4 < 2 ^ 31"
  shows "ending (main_rw e MODE_WRITE fpath addr val 1 4) = Some (Exited EXIT_SUCCESS [])
       \<and> ending (main_rw (e\<lparr>dev_mem := memory (main_rw e MODE_WRITE fpath addr val 1 4)\<rparr>)
                   MODE_READ fpath addr val' 1 4) = Some (Exited EXIT_SUCCESS [])
       \<and> printed (events (main_rw (e\<lparr>dev_mem := memory (main_rw e MODE_WRITE fpath addr val 1 4)\<rparr>)
                   MODE_READ fpath addr val' 1 4)) = [(addr, val)]"
proof -
  have len: "sint (1 * 4 + addr) = sint addr + 4"
    using sint_mul4_add(1) [of addr 1] assms(3,4) by simp
  have w: "main_rw e MODE_WRITE fpath addr val 1 4
      = \<lparr>ending = Some (Exited EXIT_SUCCESS []),
         events = [Open fpath (open_ret e), Mmap (sint addr + 4) True, Store32 (sint addr) val,
                   Munmap 4, Close (open_ret e)],
         memory = store32 (big_endian e) (dev_mem e) (sint addr) val\<rparr>"
    using assms(1,2) len by (simp add: main_rw_def Let_def)
  let ?e' = "e\<lparr>dev_mem := store32 (big_endian e) (dev_mem e) (sint addr) val\<rparr>"
  have one: "nat (sint (1 :: cint)) = Suc 0"
    by simp
  have r: "ending (main_rw ?e' MODE_READ fpath addr val' 1 4) = Some (Exited EXIT_SUCCESS [])"
    "printed (events (main_rw ?e' MODE_READ fpath addr val' 1 4)) = [(addr, val)]"
    using assms(1,2)
    by (simp_all add: main_rw_def Let_def read_loop_word_events one load32_store32)
  show ?thesis
    using r by (simp add: w)
qed

theorem write_read_roundtrip_witness:
  "1 \<le> open_ret uio0 \<and> \<not> mmap_fails uio0 \<and> 0 \<le> sint (8 :: cint) \<and> sint (8 :: cint) + 4 < 2 ^ 31
   \<and> printed (events (main_rw
         (uio0\<lparr>dev_mem := memory (main_rw uio0 MODE_WRITE ''/dev/uio0'' 8 0xCAFE0080 1 4)\<rparr>)
         MODE_READ ''/dev/uio0'' 8 0 1 4)) = [(8, 0xCAFE0080)]"
proof -
  have h: "1 \<le> open_ret uio0" "\<not> mmap_fails uio0" "0 \<le> sint (8 :: cint)"
    "sint (8 :: cint) + 4 < 2 ^ 31"
    by (simp_all add: uio0_def)
  show ?thesis
    using h write_read_roundtrip [OF h, of "''/dev/uio0''" "0xCAFE0080" 0] by simp
qed

text \<open>
  C10. A write, whatever the count and on every path, changes no byte outside the four
  bytes from \<open>addr\<close> on, and stores at most one word. Where the device opens and maps,
  whatever the count: the run is \<^verbatim>\<open>open\<close>, \<^verbatim>\<open>mmap\<close> of \<open>count * width + addr\<close> bytes, the
  one store of \<open>val\<close> at \<open>addr\<close>, \<^verbatim>\<open>munmap\<close>, \<^verbatim>\<open>close\<close>, and exit with success; the count
  appears in the two lengths only; the memory is the old memory with the four bytes
  replaced, and they hold \<open>val\<close>.
\<close>

theorem write_frame:
  "(\<forall>i. \<not> (sint addr \<le> i \<and> i < sint addr + 4) \<longrightarrow>
        memory (main_rw e MODE_WRITE fpath addr val count width) i = dev_mem e i)
   \<and> length (filter is_store (events (main_rw e MODE_WRITE fpath addr val count width))) \<le> 1
   \<and> (1 \<le> open_ret e \<and> \<not> mmap_fails e \<longrightarrow>
        ending (main_rw e MODE_WRITE fpath addr val count width) = Some (Exited EXIT_SUCCESS [])
        \<and> events (main_rw e MODE_WRITE fpath addr val count width)
          = [Open fpath (open_ret e), Mmap (sint (count * width + addr)) True,
             Store32 (sint addr) val, Munmap (sint (count * width)), Close (open_ret e)]
        \<and> filter is_store (events (main_rw e MODE_WRITE fpath addr val count width))
          = [Store32 (sint addr) val]
        \<and> memory (main_rw e MODE_WRITE fpath addr val count width)
          = store32 (big_endian e) (dev_mem e) (sint addr) val
        \<and> load32 (big_endian e) (memory (main_rw e MODE_WRITE fpath addr val count width))
            (sint addr) = val)"
proof -
  have frame: "\<forall>i. \<not> (sint addr \<le> i \<and> i < sint addr + 4) \<longrightarrow>
        memory (main_rw e MODE_WRITE fpath addr val count width) i = dev_mem e i"
    by (simp add: main_rw_def Let_def store32_frame)
  have atmost:
    "length (filter is_store (events (main_rw e MODE_WRITE fpath addr val count width))) \<le> 1"
    by (simp add: main_rw_def Let_def)
  have whole: "1 \<le> open_ret e \<and> \<not> mmap_fails e \<longrightarrow>
        ending (main_rw e MODE_WRITE fpath addr val count width) = Some (Exited EXIT_SUCCESS [])
        \<and> events (main_rw e MODE_WRITE fpath addr val count width)
          = [Open fpath (open_ret e), Mmap (sint (count * width + addr)) True,
             Store32 (sint addr) val, Munmap (sint (count * width)), Close (open_ret e)]
        \<and> filter is_store (events (main_rw e MODE_WRITE fpath addr val count width))
          = [Store32 (sint addr) val]
        \<and> memory (main_rw e MODE_WRITE fpath addr val count width)
          = store32 (big_endian e) (dev_mem e) (sint addr) val
        \<and> load32 (big_endian e) (memory (main_rw e MODE_WRITE fpath addr val count width))
            (sint addr) = val"
    by (simp add: main_rw_def Let_def load32_store32)
  show ?thesis
    using frame atmost whole by blast
qed

text \<open>
  C10, at the device of the examples, with the count 0: \<^verbatim>\<open>uioctl -n 0 /dev/uio0 8 1\<close>
  stores the word 1 at address 8 and exits with success; it leaves the bytes at offsets
  7 and 12 as they were.
\<close>

theorem write_frame_witness:
  "1 \<le> open_ret uio0 \<and> \<not> mmap_fails uio0
   \<and> 7 < sint (8 :: cint) \<and> sint (8 :: cint) + 4 \<le> 12
   \<and> ending (main_rw uio0 MODE_WRITE ''/dev/uio0'' 8 1 0 4) = Some (Exited EXIT_SUCCESS [])
   \<and> events (main_rw uio0 MODE_WRITE ''/dev/uio0'' 8 1 0 4)
     = [Open ''/dev/uio0'' 3, Mmap 8 True, Store32 8 1, Munmap 0, Close 3]
   \<and> memory (main_rw uio0 MODE_WRITE ''/dev/uio0'' 8 1 0 4) 7 = 0
   \<and> memory (main_rw uio0 MODE_WRITE ''/dev/uio0'' 8 1 0 4) 12 = 0
   \<and> load32 False (memory (main_rw uio0 MODE_WRITE ''/dev/uio0'' 8 1 0 4)) 8 = 1"
proof -
  have h: "1 \<le> open_ret uio0 \<and> \<not> mmap_fails uio0"
    by (simp add: uio0_def)
  have o: "\<not> (sint (8 :: cint) \<le> 7 \<and> 7 < sint (8 :: cint) + 4)"
    "\<not> (sint (8 :: cint) \<le> 12 \<and> 12 < sint (8 :: cint) + 4)"
    by simp_all
  have m: "dev_mem uio0 7 = 0" "dev_mem uio0 12 = 0" "big_endian uio0 = False"
    "open_ret uio0 = 3"
    by (simp_all add: uio0_def uio0_mem_def)
  note wf = write_frame [of 8 uio0 "''/dev/uio0''" 1 0 4]
  from wf h have en: "ending (main_rw uio0 MODE_WRITE ''/dev/uio0'' 8 1 0 4)
      = Some (Exited EXIT_SUCCESS [])"
    and ev: "events (main_rw uio0 MODE_WRITE ''/dev/uio0'' 8 1 0 4)
      = [Open ''/dev/uio0'' (open_ret uio0), Mmap (sint (0 * 4 + 8 :: cint)) True,
         Store32 (sint (8 :: cint)) 1, Munmap (sint (0 * 4 :: cint)), Close (open_ret uio0)]"
    and ld: "load32 (big_endian uio0) (memory (main_rw uio0 MODE_WRITE ''/dev/uio0'' 8 1 0 4))
            (sint (8 :: cint)) = 1"
    by blast+
  from wf o m have fr: "memory (main_rw uio0 MODE_WRITE ''/dev/uio0'' 8 1 0 4) 7 = 0"
    "memory (main_rw uio0 MODE_WRITE ''/dev/uio0'' 8 1 0 4) 12 = 0"
    by metis+
  show ?thesis
    using h en ev ld fr m by simp
qed

text \<open>
  C2. The claim: on every exit path the mapping and the file handle are released, the
  full mapped length unmapped, and on a mapping failure the file handle is still
  released. The code: when \<^verbatim>\<open>mmap\<close> fails, \<^verbatim>\<open>main\<close> returns with the file opened and
  never closed; and a successful read of one word at address 8 maps 12 bytes and unmaps 4.
\<close>

theorem mmap_failure_leaves_file_open:
  "events (main (uio0\<lparr>mmap_fails := True\<rparr>) [] [Arg ''/dev/uio0'' 0 False, Arg ''0'' 0 False])
     = [Open ''/dev/uio0'' 3, Mmap 4 False]
   \<and> ending (main (uio0\<lparr>mmap_fails := True\<rparr>) [] [Arg ''/dev/uio0'' 0 False, Arg ''0'' 0 False])
     = Some (Exited EXIT_FAILURE [Perror, Couldnt_mmap])
   \<and> events (main uio0 [] [Arg ''/dev/uio0'' 0 False, Arg ''8'' 8 False])
     = [Open ''/dev/uio0'' 3, Mmap 12 True, Load32 8, Printf_word 8 0, Munmap 4, Close 3]"
  by (simp add: main_def main_rw_def init_settings_def uio0_def uio0_mem_def
        load32_def word_of_bytes_def word_sless_alt read_loop.simps)

text \<open>
  C3. The claim: the count reported is the unsigned little-endian value of the four
  bytes, for bytes of 128 and more as well. The code: where \<^verbatim>\<open>char\<close> is signed, the
  bytes 0x80, 0, 0, 0 (the count 128) are reported as -128; where \<^verbatim>\<open>char\<close> is unsigned, the
  bytes 0, 0, 0, 0x80 (the count 2147483648) are reported as -2147483648.
\<close>

theorem interrupt_count_high_bytes:
  "interrupt_count True (0x80, 0, 0, 0) = - 128
   \<and> le_unsigned (0x80, 0, 0, 0) = 128
   \<and> interrupt_count False (0, 0, 0, 0x80) = - 2147483648
   \<and> le_unsigned (0, 0, 0, 0x80) = 2147483648
   \<and> events (monitor (uio0\<lparr>wakes := [\<lparr>wr_ret = 4, rd_ret = 4, rd_buf = (0x80, 0, 0, 0),
                                         tp_time = 0, tp_millitm = 0\<rparr>]\<rparr>) ''/dev/uio0'' 0)
     = [Printf_waiting ''/dev/uio0'', Open ''/dev/uio0'' 3, Pwrite 3 (0, 0, 0, 1) 4, Pread 3 4,
        Printf_interrupt 0 0 (- 128), Close 3]"
  by (simp add: monitor_def uio0_def startval_def promote_def)

text \<open>
  C6. Where the device file opens: with the single-shot flag set (\<open>forever = 0\<close>) and the
  first pass transferring 4 bytes each way, the run is one \<^verbatim>\<open>pwrite\<close>, one \<^verbatim>\<open>pread\<close>, the
  line printed, \<^verbatim>\<open>close\<close>, and exit with success, whatever else the kernel would have
  answered; with any answers at all the body runs once and the process ends. With the
  flag unset the process never exits with success: it has either not ended or has exited
  on a short transfer; and as long as every transfer is complete it has not ended, after
  as many passes as there were answers.
\<close>

theorem single_shot_termination:
  assumes "1 \<le> open_ret e"
  shows "(wakes e = k # ks \<and> wr_ret k = 4 \<and> rd_ret k = 4 \<longrightarrow>
            ending (monitor e fpath 0) = Some (Exited EXIT_SUCCESS [])
            \<and> events (monitor e fpath 0)
              = [Printf_waiting fpath, Open fpath (open_ret e),
                 Pwrite (open_ret e) startval 4, Pread (open_ret e) 4,
                 Printf_interrupt (tp_time k) (tp_millitm k)
                   (interrupt_count (char_signed e) (rd_buf k)),
                 Close (open_ret e)])
       \<and> (wakes e \<noteq> [] \<longrightarrow>
            length (filter is_pwrite (events (monitor e fpath 0))) = 1
            \<and> ending (monitor e fpath 0) \<noteq> None)
       \<and> (forever \<noteq> 0 \<longrightarrow>
            (\<forall>ms. ending (monitor e fpath forever) \<noteq> Some (Exited EXIT_SUCCESS ms))
            \<and> (ending (monitor e fpath forever) = None
                \<or> io_failure (ending (monitor e fpath forever))))
       \<and> (forever \<noteq> 0 \<and> (\<forall>k\<in>set (wakes e). wr_ret k = 4 \<and> rd_ret k = 4) \<longrightarrow>
            ending (monitor e fpath forever) = None
            \<and> length (filter is_pwrite (events (monitor e fpath forever))) = length (wakes e)
            \<and> length (filter is_pread (events (monitor e fpath forever))) = length (wakes e))"
proof -
  have op: "\<not> open_ret e < 1"
    using assms by simp
  have once: "wakes e = k # ks \<and> wr_ret k = 4 \<and> rd_ret k = 4 \<longrightarrow>
            ending (monitor e fpath 0) = Some (Exited EXIT_SUCCESS [])
            \<and> events (monitor e fpath 0)
              = [Printf_waiting fpath, Open fpath (open_ret e),
                 Pwrite (open_ret e) startval 4, Pread (open_ret e) 4,
                 Printf_interrupt (tp_time k) (tp_millitm k)
                   (interrupt_count (char_signed e) (rd_buf k)),
                 Close (open_ret e)]"
    using op by (simp add: monitor_def Let_def)
  have body: "wakes e \<noteq> [] \<longrightarrow>
            length (filter is_pwrite (events (monitor e fpath 0))) = 1
            \<and> ending (monitor e fpath 0) \<noteq> None"
  proof
    assume "wakes e \<noteq> []"
    then obtain k' ks' where "wakes e = k' # ks'"
      by (cases "wakes e") auto
    then show "length (filter is_pwrite (events (monitor e fpath 0))) = 1
        \<and> ending (monitor e fpath 0) \<noteq> None"
      using op by (simp add: monitor_def Let_def)
  qed
  obtain evs r where loop: "monitor_loop (char_signed e) forever (open_ret e) (wakes e) = (evs, r)"
    by (cases "monitor_loop (char_signed e) forever (open_ret e) (wakes e)")
  then have en: "ending (monitor e fpath forever) = r"
    and ev: "events (monitor e fpath forever) = Printf_waiting fpath # Open fpath (open_ret e) # evs"
    using op by (simp_all add: monitor_def Let_def)
  have never: "forever \<noteq> 0 \<longrightarrow>
            (\<forall>ms. ending (monitor e fpath forever) \<noteq> Some (Exited EXIT_SUCCESS ms))
            \<and> (ending (monitor e fpath forever) = None
                \<or> io_failure (ending (monitor e fpath forever)))"
  proof
    assume "forever \<noteq> 0"
    then have "r = None \<or> io_failure r"
      using loop_no_success [of forever "char_signed e" "open_ret e" "wakes e"] loop by simp
    then show "(\<forall>ms. ending (monitor e fpath forever) \<noteq> Some (Exited EXIT_SUCCESS ms))
            \<and> (ending (monitor e fpath forever) = None
                \<or> io_failure (ending (monitor e fpath forever)))"
      using en by (auto simp: io_failure_def)
  qed
  have running: "forever \<noteq> 0 \<and> (\<forall>k\<in>set (wakes e). wr_ret k = 4 \<and> rd_ret k = 4) \<longrightarrow>
            ending (monitor e fpath forever) = None
            \<and> length (filter is_pwrite (events (monitor e fpath forever))) = length (wakes e)
            \<and> length (filter is_pread (events (monitor e fpath forever))) = length (wakes e)"
  proof
    assume a: "forever \<noteq> 0 \<and> (\<forall>k\<in>set (wakes e). wr_ret k = 4 \<and> rd_ret k = 4)"
    then have "snd (monitor_loop (char_signed e) forever (open_ret e) (wakes e)) = None
      \<and> length (filter is_pwrite (fst (monitor_loop (char_signed e) forever (open_ret e) (wakes e))))
          = length (wakes e)
      \<and> length (filter is_pread (fst (monitor_loop (char_signed e) forever (open_ret e) (wakes e))))
          = length (wakes e)"
      by (intro loop_running) auto
    then show "ending (monitor e fpath forever) = None
            \<and> length (filter is_pwrite (events (monitor e fpath forever))) = length (wakes e)
            \<and> length (filter is_pread (events (monitor e fpath forever))) = length (wakes e)"
      using loop en ev by simp
  qed
  show ?thesis
    using once body never running by blast
qed

text \<open>
  C6, at the device of the examples, whose kernel answers one pass: single-shot, the run
  exits with success after one pass; otherwise it is still running after that pass.
\<close>

theorem single_shot_termination_witness:
  "1 \<le> open_ret uio0 \<and> wakes uio0 \<noteq> [] \<and> (1 :: cint) \<noteq> 0
   \<and> list_all (\<lambda>k. wr_ret k = 4 \<and> rd_ret k = 4) (wakes uio0)
   \<and> ending (monitor uio0 ''/dev/uio0'' 0) = Some (Exited EXIT_SUCCESS [])
   \<and> length (filter is_pwrite (events (monitor uio0 ''/dev/uio0'' 0))) = 1
   \<and> ending (monitor uio0 ''/dev/uio0'' 1) = None
   \<and> length (filter is_pwrite (events (monitor uio0 ''/dev/uio0'' 1))) = 1"
proof -
  let ?k = "\<lparr>wr_ret = 4, rd_ret = 4, rd_buf = (5, 0, 0, 0), tp_time = 0, tp_millitm = 0\<rparr>"
  have h: "1 \<le> open_ret uio0"
    by (simp add: uio0_def)
  have w: "wakes uio0 = ?k # [] \<and> wr_ret ?k = 4 \<and> rd_ret ?k = 4" "wakes uio0 \<noteq> []"
    "(1 :: cint) \<noteq> 0 \<and> (\<forall>k\<in>set (wakes uio0). wr_ret k = 4 \<and> rd_ret k = 4)"
    by (simp_all add: uio0_def)
  note t0 = single_shot_termination [OF h, of ?k "[]" "''/dev/uio0''" 1]
  from t0 w(1) have a: "ending (monitor uio0 ''/dev/uio0'' 0) = Some (Exited EXIT_SUCCESS [])"
    by blast
  from t0 w(2) have b: "length (filter is_pwrite (events (monitor uio0 ''/dev/uio0'' 0))) = 1"
    by blast
  from t0 w(3) have c: "ending (monitor uio0 ''/dev/uio0'' 1) = None
      \<and> length (filter is_pwrite (events (monitor uio0 ''/dev/uio0'' 1))) = length (wakes uio0)"
    by blast
  have "length (wakes uio0) = 1"
    by (simp add: uio0_def)
  moreover have "list_all (\<lambda>k. wr_ret k = 4 \<and> rd_ret k = 4) (wakes uio0)"
    by (simp add: uio0_def)
  ultimately show ?thesis
    using h w(2) a b c by simp
qed

text \<open>
  C7. The transfers of a monitor run, in order, come in pairs: whenever the wait read of
  pass \<open>i\<close> was issued (position \<open>2 * i + 1\<close>), the transfer before it (position
  \<open>2 * i\<close>) is the acknowledging \<^verbatim>\<open>pwrite\<close> of \<open>startval\<close>, and it returned 4; every
  even position is a \<^verbatim>\<open>pwrite\<close>. A \<^verbatim>\<open>pwrite\<close> or \<^verbatim>\<open>pread\<close> that returned another number
  than 4 is the last event of the run, and the process has exited with failure.
\<close>

theorem monitor_ordering:
  "(\<forall>i. 2 * i + 1 < length (filter is_rw (events (monitor e fpath forever))) \<longrightarrow>
        filter is_rw (events (monitor e fpath forever)) ! (2 * i)
          = Pwrite (open_ret e) startval 4
        \<and> is_pread (filter is_rw (events (monitor e fpath forever)) ! (2 * i + 1)))
   \<and> (\<forall>j. j < length (events (monitor e fpath forever))
          \<and> short_transfer (events (monitor e fpath forever) ! j) \<longrightarrow>
        Suc j = length (events (monitor e fpath forever))
        \<and> io_failure (ending (monitor e fpath forever)))"
proof (cases "open_ret e < 1")
  case True
  then have ev: "events (monitor e fpath forever) = [Printf_waiting fpath, Open fpath (open_ret e)]"
    by (simp add: monitor_def Let_def)
  have "\<not> short_transfer (events (monitor e fpath forever) ! j)"
    if "j < length (events (monitor e fpath forever))" for j
  proof -
    from that ev have "j = 0 \<or> j = 1"
      by auto
    with ev show ?thesis
      by auto
  qed
  moreover from ev have "filter is_rw (events (monitor e fpath forever)) = []"
    by simp
  ultimately show ?thesis
    by auto
next
  case False
  obtain evs r where loop: "monitor_loop (char_signed e) forever (open_ret e) (wakes e) = (evs, r)"
    by (cases "monitor_loop (char_signed e) forever (open_ret e) (wakes e)")
  with False have en: "ending (monitor e fpath forever) = r"
    and ev: "events (monitor e fpath forever) = Printf_waiting fpath # Open fpath (open_ret e) # evs"
    by (simp_all add: monitor_def Let_def)
  have io: "filter is_rw (events (monitor e fpath forever))
      = filter is_rw (fst (monitor_loop (char_signed e) forever (open_ret e) (wakes e)))"
    by (simp add: ev loop)
  have pairs: "\<forall>i. 2 * i + 1 < length (filter is_rw (events (monitor e fpath forever))) \<longrightarrow>
        filter is_rw (events (monitor e fpath forever)) ! (2 * i)
          = Pwrite (open_ret e) startval 4
        \<and> is_pread (filter is_rw (events (monitor e fpath forever)) ! (2 * i + 1))"
    unfolding io by (intro allI impI loop_pairs)
  have short: "Suc j = length (events (monitor e fpath forever))
        \<and> io_failure (ending (monitor e fpath forever))"
    if j: "j < length (events (monitor e fpath forever))"
      and s: "short_transfer (events (monitor e fpath forever) ! j)" for j
  proof -
    have "\<exists>j'. j = Suc (Suc j')"
    proof (rule ccontr)
      assume "\<not> (\<exists>j'. j = Suc (Suc j'))"
      then have "j = 0 \<or> j = 1"
        by presburger
      with s ev show False
        by auto
    qed
    then obtain j' where j': "j = Suc (Suc j')" ..
    with j s ev loop
    have "j' < length (fst (monitor_loop (char_signed e) forever (open_ret e) (wakes e)))"
      and "short_transfer (fst (monitor_loop (char_signed e) forever (open_ret e) (wakes e)) ! j')"
      by simp_all
    then have "Suc j' = length (fst (monitor_loop (char_signed e) forever (open_ret e) (wakes e)))
        \<and> io_failure (snd (monitor_loop (char_signed e) forever (open_ret e) (wakes e)))"
      by (rule loop_short)
    with j' ev en loop show ?thesis
      by simp
  qed
  from pairs short show ?thesis
    by blast
qed

text \<open>
  C7, at two runs: on the device of the examples the first transfer is the complete
  \<^verbatim>\<open>pwrite\<close> and the second the \<^verbatim>\<open>pread\<close>; where the \<^verbatim>\<open>pwrite\<close> returns 2, it is the
  last event and the process has exited with failure.
\<close>

theorem monitor_ordering_witness:
  "2 * 0 + 1 < length (filter is_rw (events (monitor uio0 ''/dev/uio0'' 0)))
   \<and> filter is_rw (events (monitor uio0 ''/dev/uio0'' 0)) ! (2 * 0) = Pwrite 3 (0, 0, 0, 1) 4
   \<and> is_pread (filter is_rw (events (monitor uio0 ''/dev/uio0'' 0)) ! (2 * 0 + 1))
   \<and> 2 < length (events (monitor (uio0\<lparr>wakes := [\<lparr>wr_ret = 2, rd_ret = 4, rd_buf = (5, 0, 0, 0),
            tp_time = 0, tp_millitm = 0\<rparr>]\<rparr>) ''/dev/uio0'' 1))
   \<and> short_transfer (events (monitor (uio0\<lparr>wakes := [\<lparr>wr_ret = 2, rd_ret = 4,
            rd_buf = (5, 0, 0, 0), tp_time = 0, tp_millitm = 0\<rparr>]\<rparr>) ''/dev/uio0'' 1) ! 2)
   \<and> length (events (monitor (uio0\<lparr>wakes := [\<lparr>wr_ret = 2, rd_ret = 4, rd_buf = (5, 0, 0, 0),
            tp_time = 0, tp_millitm = 0\<rparr>]\<rparr>) ''/dev/uio0'' 1)) = 3
   \<and> io_failure (ending (monitor (uio0\<lparr>wakes := [\<lparr>wr_ret = 2, rd_ret = 4, rd_buf = (5, 0, 0, 0),
            tp_time = 0, tp_millitm = 0\<rparr>]\<rparr>) ''/dev/uio0'' 1))"
proof -
  let ?bad = "uio0\<lparr>wakes := [\<lparr>wr_ret = 2, rd_ret = 4, rd_buf = (5, 0, 0, 0),
            tp_time = 0, tp_millitm = 0\<rparr>]\<rparr>"
  have l: "2 * 0 + 1 < length (filter is_rw (events (monitor uio0 ''/dev/uio0'' 0)))"
    by (simp add: monitor_def uio0_def)
  have s: "2 < length (events (monitor ?bad ''/dev/uio0'' 1))
      \<and> short_transfer (events (monitor ?bad ''/dev/uio0'' 1) ! 2)"
    by (simp add: monitor_def uio0_def)
  have o: "open_ret uio0 = 3" "startval = (0, 0, 0, 1)"
    by (simp_all add: uio0_def startval_def)
  from monitor_ordering [of uio0 "''/dev/uio0''" 0] l o
  have a: "filter is_rw (events (monitor uio0 ''/dev/uio0'' 0)) ! (2 * 0) = Pwrite 3 (0, 0, 0, 1) 4
      \<and> is_pread (filter is_rw (events (monitor uio0 ''/dev/uio0'' 0)) ! (2 * 0 + 1))"
    by metis
  from monitor_ordering [of ?bad "''/dev/uio0''" 1] s
  have b: "Suc 2 = length (events (monitor ?bad ''/dev/uio0'' 1))
      \<and> io_failure (ending (monitor ?bad ''/dev/uio0'' 1))"
    by blast
  from l a s b show ?thesis
    by simp
qed

text \<open>
  C8. The claim: every request with a region other than 0 or a width other than 4 is
  rejected with the unsupported-feature failure, a non-zero exit, before any device is
  touched. Against it: after \<^verbatim>\<open>-h\<close>, the option \<^verbatim>\<open>-r 1\<close> is never looked at, and the
  process exits with success; and the region 4294967296, where \<^verbatim>\<open>strtoul\<close> returns it, is
  not rejected: \<^verbatim>\<open>uioctl -r 4294967296 /dev/uio0 0\<close> opens and maps the device and reads a
  word.
\<close>

theorem help_before_region_counterexample:
  "unsupported (Opt_r 1 False) = Some Region_not_yet_implemented
   \<and> ending (main uio0 [Opt_h, Opt_r 1 False] [Arg ''/dev/uio0'' 0 False, Arg ''0'' 0 False])
     = Some (Exited EXIT_SUCCESS [Usage])
   \<and> ending (main uio0 [Opt_r 4294967296 False] [Arg ''/dev/uio0'' 0 False, Arg ''0'' 0 False])
     = Some (Exited EXIT_SUCCESS [])
   \<and> events (main uio0 [Opt_r 4294967296 False] [Arg ''/dev/uio0'' 0 False, Arg ''0'' 0 False])
     = [Open ''/dev/uio0'' 3, Mmap 4 True, Load32 0, Printf_word 0 0xDEADBEEF, Munmap 4,
        Close 3]"
  by (simp add: main_def exit_early_def main_rw_def init_settings_def uio0_def uio0_mem_def
        load32_def word_of_bytes_def word_sless_alt read_loop.simps)

text \<open>
  C8, amended. A command line with an option that supplies a region other than 0 or a
  width other than 4 (a number below \<open>2 ^ 32\<close> that \<^verbatim>\<open>strtoul\<close> accepted) ends in the
  option loop: the process exits with no device opened, mapped, read or written. When
  every option before it passes, the exit is the rejection: \<open>EXIT_FAILURE\<close> and the
  message "not yet implemented" of that option. When an option that ends the run comes
  first, after options that pass, the exit is that option's: success and the usage text
  for \<^verbatim>\<open>-h\<close>; failure and its message for \<^verbatim>\<open>-l\<close>, an unknown option, or a number
  \<^verbatim>\<open>strtoul\<close> reports an error for. Numbers of \<open>2 ^ 32\<close> and more are left out.
\<close>

theorem unsupported_rejected:
  "((\<exists>x\<in>set opts. unsupported x \<noteq> None) \<longrightarrow>
      events (main e opts args) = []
      \<and> memory (main e opts args) = dev_mem e
      \<and> (\<exists>st ms. ending (main e opts args) = Some (Exited st ms)))
   \<and> (list_all passes pre \<and> unsupported x = Some msg \<longrightarrow>
      main e (pre @ x # post) args = exit_early e EXIT_FAILURE [msg])
   \<and> (list_all passes pre \<and> ends_run y = Some (st, ms) \<longrightarrow>
      main e (pre @ y # post) args = exit_early e st ms)"
proof -
  have stops: "events (main e opts args) = []
      \<and> memory (main e opts args) = dev_mem e
      \<and> (\<exists>st ms. ending (main e opts args) = Some (Exited st ms))"
    if "\<exists>x\<in>set opts. unsupported x \<noteq> None"
  proof -
    from that obtain st ms where "getopt_loop opts init_settings = Inl (st, ms)"
      using getopt_stops by blast
    then show ?thesis
      by (simp add: main_def exit_early_def)
  qed
  have rej: "main e (pre @ x # post) args = exit_early e EXIT_FAILURE [msg]"
    if "list_all passes pre \<and> unsupported x = Some msg"
  proof -
    from that obtain s' where
      "getopt_loop (pre @ x # post) init_settings = getopt_loop (x # post) s'"
      using getopt_passes by blast
    with that have "getopt_loop (pre @ x # post) init_settings = Inl (EXIT_FAILURE, [msg])"
      by (simp add: unsupported_stops)
    then show ?thesis
      by (simp add: main_def)
  qed
  have early: "main e (pre @ y # post) args = exit_early e st ms"
    if "list_all passes pre \<and> ends_run y = Some (st, ms)"
  proof -
    from that obtain s' where
      "getopt_loop (pre @ y # post) init_settings = getopt_loop (y # post) s'"
      using getopt_passes by blast
    with that have "getopt_loop (pre @ y # post) init_settings = Inl (st, ms)"
      by (simp add: ends_run_stops)
    then show ?thesis
      by (simp add: main_def)
  qed
  from stops rej early show ?thesis
    by blast
qed

text \<open>
  C8, amended, at \<^verbatim>\<open>uioctl -n 2 -w 8 /dev/uio0 0\<close>, at \<^verbatim>\<open>uioctl -x -r 1 /dev/uio0\<close> and at
  \<^verbatim>\<open>uioctl -m -h -r 1 /dev/uio0\<close>.
\<close>

theorem unsupported_rejected_witness:
  "list_all passes [Opt_n 2 False] \<and> unsupported (Opt_w 8 False) = Some Width_not_yet_implemented
   \<and> Opt_w 8 False \<in> set [Opt_n 2 False, Opt_w 8 False]
   \<and> main uio0 ([Opt_n 2 False] @ Opt_w 8 False # [])
        [Arg ''/dev/uio0'' 0 False, Arg ''0'' 0 False]
     = exit_early uio0 EXIT_FAILURE [Width_not_yet_implemented]
   \<and> events (main uio0 [Opt_n 2 False, Opt_w 8 False]
        [Arg ''/dev/uio0'' 0 False, Arg ''0'' 0 False]) = []
   \<and> list_all passes [Opt_x] \<and> unsupported (Opt_r 1 False) = Some Region_not_yet_implemented
   \<and> ending (main uio0 ([Opt_x] @ Opt_r 1 False # []) [Arg ''/dev/uio0'' 0 False])
     = Some (Exited EXIT_FAILURE [Region_not_yet_implemented])
   \<and> list_all passes [Opt_m] \<and> ends_run Opt_h = Some (EXIT_SUCCESS, [Usage])
   \<and> ending (main uio0 ([Opt_m] @ Opt_h # [Opt_r 1 False]) [Arg ''/dev/uio0'' 0 False])
     = Some (Exited EXIT_SUCCESS [Usage])"
proof -
  have h: "list_all passes [Opt_n 2 False] \<and> unsupported (Opt_w 8 False) = Some Width_not_yet_implemented"
    "\<exists>x\<in>set [Opt_n 2 False, Opt_w 8 False]. unsupported x \<noteq> None"
    "list_all passes [Opt_x] \<and> unsupported (Opt_r 1 False) = Some Region_not_yet_implemented"
    "list_all passes [Opt_m] \<and> ends_run Opt_h = Some (EXIT_SUCCESS, [Usage])"
    by simp_all
  note t = unsupported_rejected [where opts = "[Opt_n 2 False, Opt_w 8 False]" and e = uio0
      and args = "[Arg ''/dev/uio0'' 0 False, Arg ''0'' 0 False]" and pre = "[Opt_n 2 False]"
      and x = "Opt_w 8 False" and msg = Width_not_yet_implemented and post = "[]"]
  from t h(1) have a: "main uio0 ([Opt_n 2 False] @ Opt_w 8 False # [])
        [Arg ''/dev/uio0'' 0 False, Arg ''0'' 0 False]
     = exit_early uio0 EXIT_FAILURE [Width_not_yet_implemented]"
    by blast
  from t h(2) have b: "events (main uio0 [Opt_n 2 False, Opt_w 8 False]
        [Arg ''/dev/uio0'' 0 False, Arg ''0'' 0 False]) = []"
    by blast
  from unsupported_rejected [where e = uio0 and args = "[Arg ''/dev/uio0'' 0 False]"
      and pre = "[Opt_x]" and x = "Opt_r 1 False" and msg = Region_not_yet_implemented
      and post = "[]"] h(3)
  have "main uio0 ([Opt_x] @ Opt_r 1 False # []) [Arg ''/dev/uio0'' 0 False]
     = exit_early uio0 EXIT_FAILURE [Region_not_yet_implemented]"
    by blast
  then have c: "ending (main uio0 ([Opt_x] @ Opt_r 1 False # []) [Arg ''/dev/uio0'' 0 False])
     = Some (Exited EXIT_FAILURE [Region_not_yet_implemented])"
    by (simp add: exit_early_def)
  from unsupported_rejected [where e = uio0 and args = "[Arg ''/dev/uio0'' 0 False]"
      and pre = "[Opt_m]" and y = Opt_h and st = EXIT_SUCCESS and ms = "[Usage]"
      and post = "[Opt_r 1 False]"] h(4)
  have "main uio0 ([Opt_m] @ Opt_h # [Opt_r 1 False]) [Arg ''/dev/uio0'' 0 False]
     = exit_early uio0 EXIT_SUCCESS [Usage]"
    by blast
  then have d: "ending (main uio0 ([Opt_m] @ Opt_h # [Opt_r 1 False]) [Arg ''/dev/uio0'' 0 False])
     = Some (Exited EXIT_SUCCESS [Usage])"
    by (simp add: exit_early_def)
  from h(1,3,4) a b c d show ?thesis
    by simp
qed

text \<open>
  C9. The claim: for every read or write request the mapping is at least
  \<open>w * n + addr\<close> long, so every offset accessed lies within the mapped length. Against
  it, three writes of the word 1. \<^verbatim>\<open>uioctl -n 0 /dev/uio0 8 1\<close> maps 8 bytes and stores
  at the offsets 8 to 11. \<^verbatim>\<open>uioctl -n 1073741824 /dev/uio0 8 1\<close>: the product
  \<open>count * width\<close> wraps around to 0, 8 bytes are mapped, fewer than \<open>w * n + addr\<close>, and
  the store is at the offsets 8 to 11. \<^verbatim>\<open>uioctl -n 2 /dev/uio0 4294967292 1\<close>: the address
  becomes -4 in the \<^verbatim>\<open>int\<close>, 4 bytes are mapped, and the store is at the offsets -4 to -1.
\<close>

theorem write_count_zero_counterexample:
  "events (main uio0 [Opt_n 0 False]
       [Arg ''/dev/uio0'' 0 False, Arg ''8'' 8 False, Arg ''1'' 1 False])
     = [Open ''/dev/uio0'' 3, Mmap 8 True, Store32 8 1, Munmap 0, Close 3]
   \<and> ending (main uio0 [Opt_n 0 False]
       [Arg ''/dev/uio0'' 0 False, Arg ''8'' 8 False, Arg ''1'' 1 False])
     = Some (Exited EXIT_SUCCESS [])
   \<and> mapped [Open ''/dev/uio0'' 3, Mmap 8 True, Store32 8 1, Munmap 0, Close 3] = [8]
   \<and> accessed (Store32 8 1) = [8, 9, 10, 11]
   \<and> \<not> covered 8 (events (main uio0 [Opt_n 0 False]
       [Arg ''/dev/uio0'' 0 False, Arg ''8'' 8 False, Arg ''1'' 1 False]))
   \<and> events (main uio0 [Opt_n 1073741824 False]
       [Arg ''/dev/uio0'' 0 False, Arg ''8'' 8 False, Arg ''1'' 1 False])
     = [Open ''/dev/uio0'' 3, Mmap 8 True, Store32 8 1, Munmap 0, Close 3]
   \<and> (8 :: int) < 4 * 1073741824 + 8
   \<and> \<not> covered 8 (events (main uio0 [Opt_n 1073741824 False]
       [Arg ''/dev/uio0'' 0 False, Arg ''8'' 8 False, Arg ''1'' 1 False]))
   \<and> events (main uio0 [Opt_n 2 False]
       [Arg ''/dev/uio0'' 0 False, Arg ''4294967292'' 4294967292 False, Arg ''1'' 1 False])
     = [Open ''/dev/uio0'' 3, Mmap 4 True, Store32 (- 4) 1, Munmap 8, Close 3]
   \<and> \<not> covered 4 (events (main uio0 [Opt_n 2 False]
       [Arg ''/dev/uio0'' 0 False, Arg ''4294967292'' 4294967292 False, Arg ''1'' 1 False]))"
  by (simp add: main_def main_rw_def init_settings_def uio0_def covered_def)

text \<open>
  C9, amended. For every read, and for every write with a count of at least 1, at an
  address that is not negative and with \<open>4 * count\<close> and \<open>addr + 4 * count\<close> in the range
  of \<^verbatim>\<open>int\<close>, where the device opens and maps: the run establishes one mapping, of exactly
  \<open>4 * count + addr\<close> bytes, every offset it accesses lies inside it, and it succeeds.
\<close>

theorem mapping_covers_accesses:
  assumes "1 \<le> open_ret e" and "\<not> mmap_fails e"
    and "0 \<le> sint addr"
    and "- (2 ^ 31) \<le> 4 * sint count" and "sint addr + 4 * sint count < 2 ^ 31"
    and "mode \<noteq> MODE_READ \<longrightarrow> 1 \<le> sint count"
  shows "mapped (events (main_rw e mode fpath addr val count 4)) = [4 * sint count + sint addr]
       \<and> covered (4 * sint count + sint addr) (events (main_rw e mode fpath addr val count 4))
       \<and> ending (main_rw e mode fpath addr val count 4) = Some (Exited EXIT_SUCCESS [])"
proof -
  let ?len = "4 * sint count + sint addr"
  have m4: "sint (count * 4) = 4 * sint count"
  proof -
    from assms(3-5) have "signed_take_bit 31 (sint count * 4) = sint count * 4"
      by (intro signed_take_bit_int_eq_self) auto
    then show ?thesis
      by (simp add: sint_word_mult)
  qed
  have len: "sint (count * 4 + addr) = ?len"
  proof -
    from assms(3-5) have "signed_take_bit 31 (4 * sint count + sint addr) = 4 * sint count + sint addr"
      by (intro signed_take_bit_int_eq_self) auto
    then show ?thesis
      by (simp add: sint_word_add m4)
  qed
  have op: "\<not> open_ret e < 1"
    using assms(1) by simp
  show ?thesis
  proof (cases "mode = MODE_READ")
    case True
    let ?ws = "word_events (big_endian e) (dev_mem e) addr (nat (sint count))"
    have ev: "events (main_rw e mode fpath addr val count 4)
        = Open fpath (open_ret e) # Mmap ?len True # ?ws
            @ [Munmap (sint (count * 4)), Close (open_ret e)]"
      and en: "ending (main_rw e mode fpath addr val count 4) = Some (Exited EXIT_SUCCESS [])"
      using True op assms(2) len by (simp_all add: main_rw_def Let_def read_loop_word_events)
    have cov: "covered ?len ?ws"
    proof (cases "0 \<le> sint count")
      case True
      then have "sint addr + 4 * int (nat (sint count)) \<le> ?len"
        by simp
      moreover have "?len < 2 ^ 31"
        using assms(5) by simp
      ultimately show ?thesis
        using assms(3) by (intro accessed_word_events) auto
    next
      case False
      then have "nat (sint count) = 0"
        by simp
      then show ?thesis
        by (simp add: covered_def)
    qed
    have "covered ?len (events (main_rw e mode fpath addr val count 4))"
      unfolding ev using cov by (simp add: covered_def)
    moreover have "mapped (events (main_rw e mode fpath addr val count 4)) = [?len]"
      unfolding ev by simp
    ultimately show ?thesis
      using en by simp
  next
    case False
    with assms(6) have c1: "1 \<le> sint count"
      by simp
    have ev: "events (main_rw e mode fpath addr val count 4)
        = [Open fpath (open_ret e), Mmap ?len True, Store32 (sint addr) val,
           Munmap (sint (count * 4)), Close (open_ret e)]"
      and en: "ending (main_rw e mode fpath addr val count 4) = Some (Exited EXIT_SUCCESS [])"
      using False op assms(2) len by (simp_all add: main_rw_def Let_def)
    have "covered ?len (events (main_rw e mode fpath addr val count 4))"
      unfolding ev using assms(3) c1 by (simp add: covered_def)
    moreover have "mapped (events (main_rw e mode fpath addr val count 4)) = [?len]"
      unfolding ev by simp
    ultimately show ?thesis
      using en by simp
  qed
qed

text \<open>
  C9, amended, at the device of the examples: a write at address 8 with the count 1 maps
  12 bytes, which cover the offsets 8 to 11.
\<close>

theorem mapping_covers_accesses_witness:
  "1 \<le> open_ret uio0 \<and> \<not> mmap_fails uio0 \<and> 0 \<le> sint (8 :: cint)
   \<and> - (2 ^ 31) \<le> 4 * sint (1 :: cint)
   \<and> sint (8 :: cint) + 4 * sint (1 :: cint) < 2 ^ 31
   \<and> MODE_WRITE \<noteq> MODE_READ \<and> 1 \<le> sint (1 :: cint)
   \<and> mapped (events (main_rw uio0 MODE_WRITE ''/dev/uio0'' 8 1 1 4)) = [12]
   \<and> covered 12 (events (main_rw uio0 MODE_WRITE ''/dev/uio0'' 8 1 1 4))"
proof -
  have h: "1 \<le> open_ret uio0" "\<not> mmap_fails uio0" "0 \<le> sint (8 :: cint)"
    "- (2 ^ 31) \<le> 4 * sint (1 :: cint)"
    "sint (8 :: cint) + 4 * sint (1 :: cint) < 2 ^ 31"
    "MODE_WRITE \<noteq> MODE_READ \<longrightarrow> 1 \<le> sint (1 :: cint)"
    by (simp_all add: uio0_def)
  show ?thesis
    using h(1-5) mapping_covers_accesses [OF h, of "''/dev/uio0''" 1] by simp
qed

end
